theory Spec2Isabelle
  imports Main
begin

section \<open>The routing table, as the registry builds it\<close>

text \<open>
  The routing table is a \<^verbatim>\<open>*mux.Router\<close> of the external routing library. The
  repository only builds routers and hands requests to them, so a router is represented by
  what the repository's calls put into it: the strict-slash flag and the routes in the
  order of their registration, each route with its handler and the matchers added to it.
  How a router matches a request is left open: every function that dispatches takes the
  router's \<^verbatim>\<open>ServeHTTP\<close> as a parameter.
\<close>

type_synonym HandlerFunc = nat
  \<comment> \<open>an opaque function value \<^verbatim>\<open>func(res http.ResponseWriter, req *http.Request)\<close>\<close>

datatype matcher =
    PathPrefixM string
  | PathM string
  | MethodsM "string list"

record Route =
  handler :: "HandlerFunc option"
  matchers :: "matcher list"

record muxRouter =
  routes :: "Route list"
  strictSlash :: bool

definition NewRouter :: muxRouter where
  "NewRouter = \<lparr>routes = [], strictSlash = False\<rparr>"

definition StrictSlash :: "bool \<Rightarrow> muxRouter \<Rightarrow> muxRouter" where
  "StrictSlash v r = r\<lparr>strictSlash := v\<rparr>"

text \<open>
  \<^verbatim>\<open>PathPrefix\<close> and \<^verbatim>\<open>HandleFunc\<close> on a router register a new route and
  return it; \<^verbatim>\<open>HandlerFunc\<close> and \<^verbatim>\<open>Methods\<close> on that route change it in place.
  The route returned is the last one of the router, so the chained calls update the last
  route.
\<close>

definition upd_last :: "(Route \<Rightarrow> Route) \<Rightarrow> muxRouter \<Rightarrow> muxRouter" where
  "upd_last f r =
     (case rev (routes r) of
        [] \<Rightarrow> r
      | rt # rts \<Rightarrow> r\<lparr>routes := rev rts @ [f rt]\<rparr>)"

definition PathPrefix :: "string \<Rightarrow> muxRouter \<Rightarrow> muxRouter" where
  "PathPrefix tpl r = r\<lparr>routes := routes r @ [\<lparr>handler = None, matchers = [PathPrefixM tpl]\<rparr>]\<rparr>"

definition Route_HandlerFunc :: "HandlerFunc \<Rightarrow> muxRouter \<Rightarrow> muxRouter" where
  "Route_HandlerFunc f r = upd_last (\<lambda>rt. rt\<lparr>handler := Some f\<rparr>) r"

definition Route_Methods :: "string list \<Rightarrow> muxRouter \<Rightarrow> muxRouter" where
  "Route_Methods ms r = upd_last (\<lambda>rt. rt\<lparr>matchers := matchers rt @ [MethodsM ms]\<rparr>) r"

definition HandleFunc :: "string \<Rightarrow> HandlerFunc \<Rightarrow> muxRouter \<Rightarrow> muxRouter" where
  "HandleFunc path f r = r\<lparr>routes := routes r @ [\<lparr>handler = Some f, matchers = [PathM path]\<rparr>]\<rparr>"

section \<open>dynhttpsrv.go\<close>

subsection \<open>Data\<close>

text \<open>
  A Go slice is \<^verbatim>\<open>nil\<close> or a sequence, possibly empty: \<open>None\<close> is \<^verbatim>\<open>nil\<close> and
  \<open>Some []\<close> the empty slice that is not \<^verbatim>\<open>nil\<close>. The source tests
  \<^verbatim>\<open>== nil\<close>, so the two are kept apart.
\<close>

record Endpoint =
  Methods :: "string list option"
  Paths :: "string list option"
  Handler :: HandlerFunc

text \<open>
  The registry holds \<^verbatim>\<open>*Endpoint\<close> and compares them with \<^verbatim>\<open>==\<close>, that is by
  address. A pointer is \<^verbatim>\<open>nil\<close> or an address; the heap gives the endpoint stored at
  each address. Two addresses may hold equal endpoints.
\<close>

datatype eptr = NilPtr | Ptr nat

type_synonym heap = "nat \<Rightarrow> Endpoint"

text \<open>
  \<open>mu\<close> is the state of the mutex \<^verbatim>\<open>*sr.mu\<close>: \<open>True\<close> when it is held.
\<close>

record swappableRouter =
  mu :: bool
  router :: muxRouter

record DynHttpSrv =
  Router :: swappableRouter
  Endpoints :: "eptr list"

text \<open>
  A call returns, panics (a \<^verbatim>\<open>nil\<close> pointer is dereferenced), or blocks for ever
  (\<^verbatim>\<open>Lock\<close> on a mutex that nobody will release).
\<close>

datatype 'a outcome = Return 'a | Panic | Block

datatype error = ErrorString string
  \<comment> \<open>the value of \<^verbatim>\<open>errors.New(text)\<close>\<close>

subsection \<open>swappableRouter\<close>

definition createSwappableRouter :: "muxRouter \<Rightarrow> swappableRouter" where
  "createSwappableRouter r = \<lparr>mu = False, router = r\<rparr>"

definition Lock :: "swappableRouter \<Rightarrow> swappableRouter option" where
  "Lock sr = (if mu sr then None else Some (sr\<lparr>mu := True\<rparr>))"

definition Unlock :: "swappableRouter \<Rightarrow> swappableRouter" where
  "Unlock sr = sr\<lparr>mu := False\<rparr>"

text \<open>A call of \<^verbatim>\<open>swap\<close> that runs alone; \<open>None\<close> when it blocks.\<close>

definition swap :: "swappableRouter \<Rightarrow> muxRouter \<Rightarrow> swappableRouter option" where
  "swap sr newRouter =
     (case Lock sr of
        None \<Rightarrow> None
      | Some sr1 \<Rightarrow> Some (Unlock (sr1\<lparr>router := newRouter\<rparr>)))"

text \<open>
  \<^verbatim>\<open>ServeHTTP\<close> has a value receiver: the call copies the struct (the pointer to the
  mutex and the pointer to the router), then locks the mutex, reads the router from the
  copy, unlocks, and calls the router. \<open>serve\<close> is the router's own
  \<^verbatim>\<open>ServeHTTP\<close>. The result is the response and the swappable router after the call.
\<close>

definition ServeHTTP ::
  "(muxRouter \<Rightarrow> 'req \<Rightarrow> 'resp) \<Rightarrow> swappableRouter \<Rightarrow> 'req \<Rightarrow> 'resp outcome \<times> swappableRouter" where
  "ServeHTTP serve sr r =
     (let copy_router = router sr in
      case Lock sr of
        None \<Rightarrow> (Block, sr)
      | Some sr1 \<Rightarrow>
          (let router' = copy_router;
               sr2 = Unlock sr1
           in (Return (serve router' r), sr2)))"

subsection \<open>DynHttpSrv\<close>

text \<open>
  \<^verbatim>\<open>New\<close> also starts the server and the goroutine that waits for the cancellation;
  the value it returns is the registry below.
\<close>

definition New :: DynHttpSrv where
  "New = \<lparr>Router = createSwappableRouter (StrictSlash True NewRouter), Endpoints = []\<rparr>"

text \<open>
  The search loop of \<^verbatim>\<open>AddEndpoint\<close> and \<^verbatim>\<open>DelEndpoint\<close>:
  \<^verbatim>\<open>pos := -1; for i, e := range dhs.Endpoints { if e == endpoint { pos = i; break } }\<close>.
  The second argument is the index of the head of the list still to visit.
\<close>

fun find_pos :: "eptr list \<Rightarrow> int \<Rightarrow> eptr \<Rightarrow> int" where
  "find_pos [] i endpoint = -1"
| "find_pos (existingEndpoint # rest) i endpoint =
     (if existingEndpoint = endpoint then i else find_pos rest (i + 1) endpoint)"

text \<open>The inner loop of \<^verbatim>\<open>reloadEndpoints\<close>, over \<^verbatim>\<open>endpoint.Paths\<close>.\<close>

fun paths_loop :: "Endpoint \<Rightarrow> muxRouter \<Rightarrow> string list \<Rightarrow> muxRouter" where
  "paths_loop endpoint newRouter [] = newRouter"
| "paths_loop endpoint newRouter (path # rest) =
     paths_loop endpoint
       (case Methods endpoint of
          None \<Rightarrow> HandleFunc path (Handler endpoint) newRouter
        | Some ms \<Rightarrow> Route_Methods ms (HandleFunc path (Handler endpoint) newRouter))
       rest"

text \<open>
  The outer loop, over \<^verbatim>\<open>dhs.Endpoints\<close>; \<open>None\<close> when \<^verbatim>\<open>endpoint.Paths\<close>
  dereferences \<^verbatim>\<open>nil\<close>.
\<close>

fun endpoints_loop :: "heap \<Rightarrow> muxRouter \<Rightarrow> eptr list \<Rightarrow> muxRouter option" where
  "endpoints_loop h newRouter [] = Some newRouter"
| "endpoints_loop h newRouter (NilPtr # rest) = None"
| "endpoints_loop h newRouter (Ptr a # rest) =
     (let endpoint = h a in
      endpoints_loop h
        (case Paths endpoint of
           None \<Rightarrow>
             (case Methods endpoint of
                None \<Rightarrow> Route_HandlerFunc (Handler endpoint) (PathPrefix ''/'' newRouter)
              | Some ms \<Rightarrow>
                  Route_Methods ms (Route_HandlerFunc (Handler endpoint) (PathPrefix ''/'' newRouter)))
         | Some ps \<Rightarrow> paths_loop endpoint newRouter ps)
        rest)"

definition reloadEndpoints :: "heap \<Rightarrow> DynHttpSrv \<Rightarrow> unit outcome \<times> DynHttpSrv" where
  "reloadEndpoints h dhs =
     (case endpoints_loop h (StrictSlash True NewRouter) (Endpoints dhs) of
        None \<Rightarrow> (Panic, dhs)
      | Some newRouter \<Rightarrow>
          (case swap (Router dhs) newRouter of
             None \<Rightarrow> (Block, dhs)
           | Some sr \<Rightarrow> (Return (), dhs\<lparr>Router := sr\<rparr>)))"

definition AddEndpoint :: "heap \<Rightarrow> DynHttpSrv \<Rightarrow> eptr \<Rightarrow> error option outcome \<times> DynHttpSrv" where
  "AddEndpoint h dhs endpoint =
     (let pos = find_pos (Endpoints dhs) 0 endpoint in
      if pos \<noteq> -1 then (Return (Some (ErrorString ''endpoint already added'')), dhs)
      else
        (case reloadEndpoints h (dhs\<lparr>Endpoints := Endpoints dhs @ [endpoint]\<rparr>) of
           (Return u, dhs') \<Rightarrow> (Return None, dhs')
         | (Panic, dhs') \<Rightarrow> (Panic, dhs')
         | (Block, dhs') \<Rightarrow> (Block, dhs')))"

definition DelEndpoint :: "heap \<Rightarrow> DynHttpSrv \<Rightarrow> eptr \<Rightarrow> error option outcome \<times> DynHttpSrv" where
  "DelEndpoint h dhs endpoint =
     (let pos = find_pos (Endpoints dhs) 0 endpoint in
      if pos = -1 then (Return (Some (ErrorString ''endpoint not found'')), dhs)
      else
        (case reloadEndpoints h
                (dhs\<lparr>Endpoints :=
                       take (nat pos) (Endpoints dhs) @ drop (nat (pos + 1)) (Endpoints dhs)\<rparr>) of
           (Return u, dhs') \<Rightarrow> (Return None, dhs')
         | (Panic, dhs') \<Rightarrow> (Panic, dhs')
         | (Block, dhs') \<Rightarrow> (Block, dhs')))"

subsection \<open>Sequences of calls\<close>

text \<open>
  A caller's sequence of \<^verbatim>\<open>AddEndpoint\<close> and \<^verbatim>\<open>DelEndpoint\<close> calls, on the
  registry that \<^verbatim>\<open>New\<close> returned. Each call starts in the state the call before
  left, whatever its outcome (a caller may recover from a panic and go on).
\<close>

datatype op = Add eptr | Del eptr

definition apply_op :: "heap \<Rightarrow> DynHttpSrv \<Rightarrow> op \<Rightarrow> DynHttpSrv" where
  "apply_op h dhs o' =
     (case o' of
        Add endpoint \<Rightarrow> snd (AddEndpoint h dhs endpoint)
      | Del endpoint \<Rightarrow> snd (DelEndpoint h dhs endpoint))"

fun run_ops :: "heap \<Rightarrow> DynHttpSrv \<Rightarrow> op list \<Rightarrow> DynHttpSrv" where
  "run_ops h dhs [] = dhs"
| "run_ops h dhs (o' # rest) = run_ops h (apply_op h dhs o') rest"

fun op_arg :: "op \<Rightarrow> eptr" where
  "op_arg (Add endpoint) = endpoint"
| "op_arg (Del endpoint) = endpoint"

text \<open>
  The table in effect is the one the loop of \<^verbatim>\<open>reloadEndpoints\<close> builds from the
  current list, and the mutex is free.
\<close>

definition in_sync :: "heap \<Rightarrow> DynHttpSrv \<Rightarrow> bool" where
  "in_sync h dhs =
     (\<not> mu (Router dhs) \<and>
      endpoints_loop h (StrictSlash True NewRouter) (Endpoints dhs) = Some (router (Router dhs)))"

section \<open>The second file: the exported variant\<close>

text \<open>
  The second source file declares the same types, with \<^verbatim>\<open>SwappableRouter\<close> exported;
  the records above stand for both. Its functions are translated again from its own text.
\<close>

definition CreateSwappableRouter :: "muxRouter \<Rightarrow> swappableRouter" where
  "CreateSwappableRouter r = \<lparr>mu = False, router = r\<rparr>"

definition Swap :: "swappableRouter \<Rightarrow> muxRouter \<Rightarrow> swappableRouter option" where
  "Swap sr newRouter =
     (case Lock sr of
        None \<Rightarrow> None
      | Some sr1 \<Rightarrow> Some (Unlock (sr1\<lparr>router := newRouter\<rparr>)))"

definition ServeHTTP_exp ::
  "(muxRouter \<Rightarrow> 'req \<Rightarrow> 'resp) \<Rightarrow> swappableRouter \<Rightarrow> 'req \<Rightarrow> 'resp outcome \<times> swappableRouter" where
  "ServeHTTP_exp serve sr r =
     (let copy_router = router sr in
      case Lock sr of
        None \<Rightarrow> (Block, sr)
      | Some sr1 \<Rightarrow>
          (let router' = copy_router;
               sr2 = Unlock sr1
           in (Return (serve router' r), sr2)))"

definition New_exp :: DynHttpSrv where
  "New_exp = \<lparr>Router = CreateSwappableRouter (StrictSlash True NewRouter), Endpoints = []\<rparr>"

fun find_pos_exp :: "eptr list \<Rightarrow> int \<Rightarrow> eptr \<Rightarrow> int" where
  "find_pos_exp [] i endpoint = -1"
| "find_pos_exp (existingEndpoint # rest) i endpoint =
     (if existingEndpoint = endpoint then i else find_pos_exp rest (i + 1) endpoint)"

fun paths_loop_exp :: "Endpoint \<Rightarrow> muxRouter \<Rightarrow> string list \<Rightarrow> muxRouter" where
  "paths_loop_exp endpoint newRouter [] = newRouter"
| "paths_loop_exp endpoint newRouter (path # rest) =
     paths_loop_exp endpoint
       (case Methods endpoint of
          None \<Rightarrow> HandleFunc path (Handler endpoint) newRouter
        | Some ms \<Rightarrow> Route_Methods ms (HandleFunc path (Handler endpoint) newRouter))
       rest"

fun endpoints_loop_exp :: "heap \<Rightarrow> muxRouter \<Rightarrow> eptr list \<Rightarrow> muxRouter option" where
  "endpoints_loop_exp h newRouter [] = Some newRouter"
| "endpoints_loop_exp h newRouter (NilPtr # rest) = None"
| "endpoints_loop_exp h newRouter (Ptr a # rest) =
     (let endpoint = h a in
      endpoints_loop_exp h
        (case Paths endpoint of
           None \<Rightarrow>
             (case Methods endpoint of
                None \<Rightarrow> Route_HandlerFunc (Handler endpoint) (PathPrefix ''/'' newRouter)
              | Some ms \<Rightarrow>
                  Route_Methods ms (Route_HandlerFunc (Handler endpoint) (PathPrefix ''/'' newRouter)))
         | Some ps \<Rightarrow> paths_loop_exp endpoint newRouter ps)
        rest)"

definition ReloadEndpoints :: "heap \<Rightarrow> DynHttpSrv \<Rightarrow> unit outcome \<times> DynHttpSrv" where
  "ReloadEndpoints h dhs =
     (case endpoints_loop_exp h (StrictSlash True NewRouter) (Endpoints dhs) of
        None \<Rightarrow> (Panic, dhs)
      | Some newRouter \<Rightarrow>
          (case Swap (Router dhs) newRouter of
             None \<Rightarrow> (Block, dhs)
           | Some sr \<Rightarrow> (Return (), dhs\<lparr>Router := sr\<rparr>)))"

definition AddEndpoint_exp :: "heap \<Rightarrow> DynHttpSrv \<Rightarrow> eptr \<Rightarrow> error option outcome \<times> DynHttpSrv" where
  "AddEndpoint_exp h dhs endpoint =
     (let pos = find_pos_exp (Endpoints dhs) 0 endpoint in
      if pos \<noteq> -1 then (Return (Some (ErrorString ''endpoint already added'')), dhs)
      else
        (case ReloadEndpoints h (dhs\<lparr>Endpoints := Endpoints dhs @ [endpoint]\<rparr>) of
           (Return u, dhs') \<Rightarrow> (Return None, dhs')
         | (Panic, dhs') \<Rightarrow> (Panic, dhs')
         | (Block, dhs') \<Rightarrow> (Block, dhs')))"

definition DelEndpoint_exp :: "heap \<Rightarrow> DynHttpSrv \<Rightarrow> eptr \<Rightarrow> error option outcome \<times> DynHttpSrv" where
  "DelEndpoint_exp h dhs endpoint =
     (let pos = find_pos_exp (Endpoints dhs) 0 endpoint in
      if pos = -1 then (Return (Some (ErrorString ''endpoint not found'')), dhs)
      else
        (case ReloadEndpoints h
                (dhs\<lparr>Endpoints :=
                       take (nat pos) (Endpoints dhs) @ drop (nat (pos + 1)) (Endpoints dhs)\<rparr>) of
           (Return u, dhs') \<Rightarrow> (Return None, dhs')
         | (Panic, dhs') \<Rightarrow> (Panic, dhs')
         | (Block, dhs') \<Rightarrow> (Block, dhs')))"

section \<open>The table the specification describes\<close>

text \<open>
  The compilation policy in the specification's words. An endpoint gives, when no path
  patterns are specified, one catch-all prefix route on the root path, and otherwise one
  route for each listed path, all bound to the endpoint's handler; a route is restricted
  to the endpoint's methods when methods are given and matches any method otherwise. The
  table holds the routes of all endpoints in list order.
\<close>

definition spec_route :: "matcher \<Rightarrow> Endpoint \<Rightarrow> Route" where
  "spec_route m e =
     \<lparr>handler = Some (Handler e),
      matchers = m # (case Methods e of None \<Rightarrow> [] | Some ms \<Rightarrow> [MethodsM ms])\<rparr>"

definition spec_routes_of :: "Endpoint \<Rightarrow> Route list" where
  "spec_routes_of e =
     (case Paths e of
        None \<Rightarrow> [spec_route (PathPrefixM ''/'') e]
      | Some ps \<Rightarrow> map (\<lambda>p. spec_route (PathM p) e) ps)"

definition spec_table :: "Endpoint list \<Rightarrow> muxRouter" where
  "spec_table es = \<lparr>routes = concat (map spec_routes_of es), strictSlash = True\<rparr>"

text \<open>The endpoints a list of pointers points to.\<close>

fun pointees :: "heap \<Rightarrow> eptr list \<Rightarrow> Endpoint list" where
  "pointees h [] = []"
| "pointees h (NilPtr # rest) = pointees h rest"
| "pointees h (Ptr a # rest) = h a # pointees h rest"

text \<open>
  A heap for examples: at address 0 the endpoint A of the specification's scenario
  (\<^verbatim>\<open>GET\<close> on \<^verbatim>\<open>/a\<close>), at address 1 its endpoint B (no methods, no paths), and
  at every other address an endpoint whose slices are empty but not \<^verbatim>\<open>nil\<close>.
\<close>

definition scenario_heap :: heap where
  "scenario_heap a =
     (if a = 0 then \<lparr>Methods = Some [''GET''], Paths = Some [''/a''], Handler = 1\<rparr>
      else if a = 1 then \<lparr>Methods = None, Paths = None, Handler = 2\<rparr>
      else \<lparr>Methods = Some [], Paths = Some [], Handler = 3\<rparr>)"

section \<open>A dispatch and a swap that run concurrently\<close>

text \<open>
  Two threads work on one \<^verbatim>\<open>swappableRouter\<close>: the dispatcher runs
  \<^verbatim>\<open>ServeHTTP(w, r)\<close>, the swapper runs \<^verbatim>\<open>swap(newRouter)\<close>. A step is one
  statement of the source; the copy of the value receiver is the first step of
  \<^verbatim>\<open>ServeHTTP\<close>. Reading and writing a pointer is one step. A thread whose next
  statement is \<^verbatim>\<open>Lock\<close> does not move while the mutex is held. A schedule is the list
  of the threads in the order they are given a step.
\<close>

datatype thread = Dispatcher | Swapper

datatype dpc = D_copy | D_lock | D_read | D_unlock | D_call | D_done

datatype spc = S_lock | S_store | S_unlock | S_done

record 'resp conf =
  shared :: swappableRouter
  d_pc :: dpc
  d_sr_router :: "muxRouter option"
  d_router :: "muxRouter option"
  d_resp :: "'resp option"
  s_pc :: spc

definition init :: "swappableRouter \<Rightarrow> 'resp conf" where
  "init sr =
     \<lparr>shared = sr, d_pc = D_copy, d_sr_router = None, d_router = None, d_resp = None,
      s_pc = S_lock\<rparr>"

fun dispatcher_step :: "(muxRouter \<Rightarrow> 'req \<Rightarrow> 'resp) \<Rightarrow> 'req \<Rightarrow> dpc \<Rightarrow> 'resp conf \<Rightarrow> 'resp conf" where
  "dispatcher_step serve r D_copy c = c\<lparr>d_sr_router := Some (router (shared c)), d_pc := D_lock\<rparr>"
| "dispatcher_step serve r D_lock c =
     (case Lock (shared c) of
        None \<Rightarrow> c
      | Some sr \<Rightarrow> c\<lparr>shared := sr, d_pc := D_read\<rparr>)"
| "dispatcher_step serve r D_read c = c\<lparr>d_router := d_sr_router c, d_pc := D_unlock\<rparr>"
| "dispatcher_step serve r D_unlock c = c\<lparr>shared := Unlock (shared c), d_pc := D_call\<rparr>"
| "dispatcher_step serve r D_call c =
     (case d_router c of
        None \<Rightarrow> c
      | Some router' \<Rightarrow> c\<lparr>d_resp := Some (serve router' r), d_pc := D_done\<rparr>)"
| "dispatcher_step serve r D_done c = c"

fun swapper_step :: "muxRouter \<Rightarrow> spc \<Rightarrow> 'resp conf \<Rightarrow> 'resp conf" where
  "swapper_step newRouter S_lock c =
     (case Lock (shared c) of
        None \<Rightarrow> c
      | Some sr \<Rightarrow> c\<lparr>shared := sr, s_pc := S_store\<rparr>)"
| "swapper_step newRouter S_store c = c\<lparr>shared := (shared c)\<lparr>router := newRouter\<rparr>, s_pc := S_unlock\<rparr>"
| "swapper_step newRouter S_unlock c = c\<lparr>shared := Unlock (shared c), s_pc := S_done\<rparr>"
| "swapper_step newRouter S_done c = c"

definition step ::
  "(muxRouter \<Rightarrow> 'req \<Rightarrow> 'resp) \<Rightarrow> 'req \<Rightarrow> muxRouter \<Rightarrow> 'resp conf \<Rightarrow> thread \<Rightarrow> 'resp conf" where
  "step serve r newRouter c t =
     (case t of
        Dispatcher \<Rightarrow> dispatcher_step serve r (d_pc c) c
      | Swapper \<Rightarrow> swapper_step newRouter (s_pc c) c)"

fun run ::
  "(muxRouter \<Rightarrow> 'req \<Rightarrow> 'resp) \<Rightarrow> 'req \<Rightarrow> muxRouter \<Rightarrow> 'resp conf \<Rightarrow> thread list \<Rightarrow> 'resp conf" where
  "run serve r newRouter c [] = c"
| "run serve r newRouter c (t # sched) = run serve r newRouter (step serve r newRouter c t) sched"

text \<open>
  What holds of every configuration of a run that starts with the table \<open>T_old\<close> in
  place and swaps \<open>T_new\<close> in: the shared field and the receiver's copy hold one of the
  two tables, before the copy there is neither a local variable nor a response, the local
  variable holds what the copy holds, and a response is the response of the table in the
  local variable.
\<close>

definition one_table ::
  "muxRouter \<Rightarrow> muxRouter \<Rightarrow> (muxRouter \<Rightarrow> 'req \<Rightarrow> 'resp) \<Rightarrow> 'req \<Rightarrow> 'resp conf \<Rightarrow> bool" where
  "one_table T_old T_new serve r c =
     ((router (shared c) = T_old \<or> router (shared c) = T_new) \<and>
      (d_pc c \<noteq> D_copy \<or> (d_router c = None \<and> d_resp c = None)) \<and>
      (case d_sr_router c of None \<Rightarrow> True | Some T \<Rightarrow> T = T_old \<or> T = T_new) \<and>
      (case d_router c of None \<Rightarrow> True | Some T \<Rightarrow> d_sr_router c = Some T) \<and>
      (case d_resp c of
         None \<Rightarrow> True
       | Some x \<Rightarrow> (case d_router c of None \<Rightarrow> False | Some T \<Rightarrow> x = serve T r)))"

text \<open>
  What holds once the dispatcher has copied its receiver, \<open>T\<close> being the table the copy
  holds.
\<close>

definition copied ::
  "muxRouter \<Rightarrow> (muxRouter \<Rightarrow> 'req \<Rightarrow> 'resp) \<Rightarrow> 'req \<Rightarrow> 'resp conf \<Rightarrow> bool" where
  "copied T serve r c =
     (d_pc c \<noteq> D_copy \<and> d_sr_router c = Some T \<and>
      (d_router c = None \<or> d_router c = Some T) \<and>
      (d_resp c = None \<or> d_resp c = Some (serve T r)))"

section \<open>Properties of the loops\<close>

subsection \<open>The search loop\<close>

text \<open>
  The loop returns \<open>-1\<close> exactly when the pointer is absent, and otherwise the index of
  its first occurrence, counted from the start index. Indices are of Go's type
  \<^verbatim>\<open>int\<close>; a slice is far shorter than its range, so they are unbounded integers here.
\<close>

lemma find_pos_lower: "e \<in> set xs \<Longrightarrow> i \<le> find_pos xs i e"
proof (induction xs arbitrary: i)
  case Nil
  then show ?case by simp
next
  case (Cons x xs)
  show ?case
  proof (cases "x = e")
    case True
    then show ?thesis by simp
  next
    case False
    with Cons.prems have "e \<in> set xs" by simp
    from Cons.IH[OF this, of "i + 1"] False show ?thesis by simp
  qed
qed

lemma find_pos_absent: "e \<notin> set xs \<Longrightarrow> find_pos xs i e = -1"
  by (induction xs arbitrary: i) auto

lemma find_pos_present: "e \<in> set xs \<Longrightarrow> find_pos xs 0 e \<noteq> -1"
  using find_pos_lower[of e xs 0] by linarith

lemma find_pos_remove1:
  "e \<in> set xs \<Longrightarrow>
   take (nat (find_pos xs i e - i)) xs @ drop (nat (find_pos xs i e - i + 1)) xs = remove1 e xs"
proof (induction xs arbitrary: i)
  case Nil
  then show ?case by simp
next
  case (Cons x xs)
  show ?case
  proof (cases "x = e")
    case True
    then show ?thesis by simp
  next
    case False
    with Cons.prems have mem: "e \<in> set xs" by simp
    from find_pos_lower[OF mem, of "i + 1"] obtain n where
      n: "find_pos xs (i + 1) e = i + 1 + int n"
      by (metis zle_iff_zadd)
    have ih: "take n xs @ drop (Suc n) xs = remove1 e xs"
      using Cons.IH[OF mem, of "i + 1"] by (simp add: n nat_add_distrib)
    have a: "nat (find_pos xs (i + 1) e - i) = Suc n" by (simp add: n)
    have b: "nat (find_pos xs (i + 1) e - i + 1) = Suc (Suc n)" by (simp add: n)
    show ?thesis
      using False ih by (simp add: a b)
  qed
qed

lemma find_pos_remove1_0:
  "e \<in> set xs \<Longrightarrow>
   take (nat (find_pos xs 0 e)) xs @ drop (nat (find_pos xs 0 e + 1)) xs = remove1 e xs"
  using find_pos_remove1[of e xs 0] by simp

subsection \<open>The loops that build the table\<close>

lemma catch_all_routes:
  "(case Methods e of
      None \<Rightarrow> Route_HandlerFunc (Handler e) (PathPrefix ''/'' r)
    | Some ms \<Rightarrow> Route_Methods ms (Route_HandlerFunc (Handler e) (PathPrefix ''/'' r)))
   = r\<lparr>routes := routes r @ [spec_route (PathPrefixM ''/'') e]\<rparr>"
  by (simp add: Route_HandlerFunc_def Route_Methods_def PathPrefix_def upd_last_def
      spec_route_def split: option.splits)

lemma path_routes:
  "(case Methods e of
      None \<Rightarrow> HandleFunc p (Handler e) r
    | Some ms \<Rightarrow> Route_Methods ms (HandleFunc p (Handler e) r))
   = r\<lparr>routes := routes r @ [spec_route (PathM p) e]\<rparr>"
  by (simp add: Route_Methods_def HandleFunc_def upd_last_def spec_route_def
      split: option.splits)

lemma paths_loop_routes:
  "paths_loop e r ps = r\<lparr>routes := routes r @ map (\<lambda>p. spec_route (PathM p) e) ps\<rparr>"
proof (induction ps arbitrary: r)
  case Nil
  show ?case by simp
next
  case (Cons p ps)
  show ?case
    unfolding paths_loop.simps path_routes Cons.IH by simp
qed

lemma endpoint_routes:
  "(case Paths e of
      None \<Rightarrow>
        (case Methods e of
           None \<Rightarrow> Route_HandlerFunc (Handler e) (PathPrefix ''/'' r)
         | Some ms \<Rightarrow> Route_Methods ms (Route_HandlerFunc (Handler e) (PathPrefix ''/'' r)))
    | Some ps \<Rightarrow> paths_loop e r ps)
   = r\<lparr>routes := routes r @ spec_routes_of e\<rparr>"
  by (cases "Paths e") (simp_all add: catch_all_routes paths_loop_routes spec_routes_of_def)

lemma endpoints_loop_routes:
  "NilPtr \<notin> set es \<Longrightarrow>
   endpoints_loop h r es = Some (r\<lparr>routes := routes r @ concat (map spec_routes_of (pointees h es))\<rparr>)"
proof (induction es arbitrary: r)
  case Nil
  show ?case by simp
next
  case (Cons p es)
  then obtain a where p: "p = Ptr a" by (cases p) auto
  from Cons.prems have "NilPtr \<notin> set es" by simp
  then show ?case
    unfolding p endpoints_loop.simps Let_def endpoint_routes
    by (simp add: Cons.IH)
qed

lemma endpoints_loop_nil: "NilPtr \<in> set es \<Longrightarrow> endpoints_loop h r es = None"
proof (induction es arbitrary: r)
  case Nil
  then show ?case by simp
next
  case (Cons p es)
  then show ?case by (cases p) (auto simp: Let_def)
qed

lemma endpoints_loop_table:
  "NilPtr \<notin> set es \<Longrightarrow>
   endpoints_loop h (StrictSlash True NewRouter) es = Some (spec_table (pointees h es))"
  by (simp add: endpoints_loop_routes StrictSlash_def NewRouter_def spec_table_def)

lemma endpoints_loop_append:
  "endpoints_loop h r (xs @ ys) =
     (case endpoints_loop h r xs of None \<Rightarrow> None | Some r' \<Rightarrow> endpoints_loop h r' ys)"
proof (induction xs arbitrary: r)
  case Nil
  show ?case by simp
next
  case (Cons p xs)
  show ?case by (cases p) (simp_all add: Cons.IH Let_def)
qed

subsection \<open>The registry's operations\<close>

lemma swap_free: "\<not> mu sr \<Longrightarrow> swap sr nr = Some \<lparr>mu = False, router = nr\<rparr>"
  by (simp add: swap_def Lock_def Unlock_def)

lemma swap_held: "mu sr \<Longrightarrow> swap sr nr = None"
  by (simp add: swap_def Lock_def)

lemma reloadEndpoints_table:
  "NilPtr \<notin> set (Endpoints dhs) \<Longrightarrow> \<not> mu (Router dhs) \<Longrightarrow>
   reloadEndpoints h dhs =
     (Return (), dhs\<lparr>Router := \<lparr>mu = False, router = spec_table (pointees h (Endpoints dhs))\<rparr>\<rparr>)"
  by (simp add: reloadEndpoints_def endpoints_loop_table swap_free)

lemma reloadEndpoints_Endpoints: "Endpoints (snd (reloadEndpoints h dhs)) = Endpoints dhs"
  by (simp add: reloadEndpoints_def split: option.splits)

lemma AddEndpoint_Endpoints:
  "Endpoints (snd (AddEndpoint h dhs e)) =
     (if e \<in> set (Endpoints dhs) then Endpoints dhs else Endpoints dhs @ [e])"
proof (cases "e \<in> set (Endpoints dhs)")
  case True
  then show ?thesis by (simp add: AddEndpoint_def find_pos_present)
next
  case False
  have "Endpoints (snd (reloadEndpoints h (dhs\<lparr>Endpoints := Endpoints dhs @ [e]\<rparr>))) = Endpoints dhs @ [e]"
    by (simp add: reloadEndpoints_Endpoints)
  with False show ?thesis
    by (auto simp: AddEndpoint_def find_pos_absent split: prod.splits outcome.splits)
qed

lemma DelEndpoint_Endpoints:
  "Endpoints (snd (DelEndpoint h dhs e)) = remove1 e (Endpoints dhs)"
proof (cases "e \<in> set (Endpoints dhs)")
  case False
  then show ?thesis by (simp add: DelEndpoint_def find_pos_absent remove1_idem)
next
  case True
  have "Endpoints (snd (reloadEndpoints h (dhs\<lparr>Endpoints := remove1 e (Endpoints dhs)\<rparr>)))
        = remove1 e (Endpoints dhs)"
    by (simp add: reloadEndpoints_Endpoints)
  with True show ?thesis
    by (auto simp: DelEndpoint_def find_pos_present find_pos_remove1_0 split: prod.splits outcome.splits)
qed

lemma AddEndpoint_present:
  "e \<in> set (Endpoints dhs) \<Longrightarrow>
   AddEndpoint h dhs e = (Return (Some (ErrorString ''endpoint already added'')), dhs)"
  by (simp add: AddEndpoint_def find_pos_present)

lemma AddEndpoint_fresh:
  assumes "e \<notin> set (Endpoints dhs)" "NilPtr \<notin> set (Endpoints dhs)" "e \<noteq> NilPtr" "\<not> mu (Router dhs)"
  shows "AddEndpoint h dhs e =
           (Return None,
            \<lparr>Router = \<lparr>mu = False, router = spec_table (pointees h (Endpoints dhs @ [e]))\<rparr>,
             Endpoints = Endpoints dhs @ [e]\<rparr>)"
proof -
  let ?d = "dhs\<lparr>Endpoints := Endpoints dhs @ [e]\<rparr>"
  have "NilPtr \<notin> set (Endpoints ?d)" "\<not> mu (Router ?d)" using assms by auto
  from reloadEndpoints_table[OF this, of h] assms(1) show ?thesis
    by (simp add: AddEndpoint_def find_pos_absent)
qed

lemma DelEndpoint_absent:
  "e \<notin> set (Endpoints dhs) \<Longrightarrow>
   DelEndpoint h dhs e = (Return (Some (ErrorString ''endpoint not found'')), dhs)"
  by (simp add: DelEndpoint_def find_pos_absent)

lemma DelEndpoint_present:
  assumes "e \<in> set (Endpoints dhs)" "NilPtr \<notin> set (Endpoints dhs)" "\<not> mu (Router dhs)"
  shows "DelEndpoint h dhs e =
           (Return None,
            \<lparr>Router = \<lparr>mu = False, router = spec_table (pointees h (remove1 e (Endpoints dhs)))\<rparr>,
             Endpoints = remove1 e (Endpoints dhs)\<rparr>)"
proof -
  let ?d = "dhs\<lparr>Endpoints := remove1 e (Endpoints dhs)\<rparr>"
  have "NilPtr \<notin> set (Endpoints ?d)" "\<not> mu (Router ?d)"
    using assms by (auto dest: notin_set_remove1)
  from reloadEndpoints_table[OF this, of h] assms(1) show ?thesis
    by (simp add: DelEndpoint_def find_pos_present find_pos_remove1_0)
qed

lemma apply_op_distinct: "distinct (Endpoints dhs) \<Longrightarrow> distinct (Endpoints (apply_op h dhs o'))"
  by (cases o') (simp_all add: apply_op_def AddEndpoint_Endpoints DelEndpoint_Endpoints)

lemma run_ops_distinct: "distinct (Endpoints dhs) \<Longrightarrow> distinct (Endpoints (run_ops h dhs ops))"
  by (induction ops arbitrary: dhs) (simp_all add: apply_op_distinct)

subsection \<open>Registries whose table is in step with their list\<close>

text \<open>
  The registry of \<^verbatim>\<open>New\<close> is in step, and every call on a pointer that is not
  \<^verbatim>\<open>nil\<close> keeps it so: these are the states a caller reaches.
\<close>
lemma in_sync_no_nil: "in_sync h dhs \<Longrightarrow> NilPtr \<notin> set (Endpoints dhs)"
  using endpoints_loop_nil[of "Endpoints dhs" h "StrictSlash True NewRouter"]
  by (auto simp: in_sync_def)

lemma in_sync_table:
  "in_sync h dhs \<Longrightarrow> Router dhs = \<lparr>mu = False, router = spec_table (pointees h (Endpoints dhs))\<rparr>"
  using in_sync_no_nil[of h dhs] by (auto simp: in_sync_def endpoints_loop_table)

lemma in_sync_New: "in_sync h New"
  by (simp add: in_sync_def New_def createSwappableRouter_def)

lemma in_sync_AddEndpoint:
  assumes "in_sync h dhs" "e \<noteq> NilPtr"
  shows "in_sync h (snd (AddEndpoint h dhs e))"
proof (cases "e \<in> set (Endpoints dhs)")
  case True
  with assms show ?thesis by (simp add: AddEndpoint_present)
next
  case False
  have nn: "NilPtr \<notin> set (Endpoints dhs)" and fr: "\<not> mu (Router dhs)"
    using assms(1) in_sync_no_nil by (auto simp: in_sync_def)
  show ?thesis
    using nn assms(2)
    by (simp add: AddEndpoint_fresh[OF False nn assms(2) fr] in_sync_def endpoints_loop_table)
qed

lemma in_sync_DelEndpoint:
  assumes "in_sync h dhs"
  shows "in_sync h (snd (DelEndpoint h dhs e))"
proof (cases "e \<in> set (Endpoints dhs)")
  case False
  with assms show ?thesis by (simp add: DelEndpoint_absent)
next
  case True
  have nn: "NilPtr \<notin> set (Endpoints dhs)" and fr: "\<not> mu (Router dhs)"
    using assms(1) in_sync_no_nil by (auto simp: in_sync_def)
  have "NilPtr \<notin> set (remove1 e (Endpoints dhs))" using nn by (auto dest: notin_set_remove1)
  then show ?thesis
    by (simp add: DelEndpoint_present[OF True nn fr] in_sync_def endpoints_loop_table)
qed

lemma in_sync_run_ops:
  "in_sync h dhs \<Longrightarrow> \<forall>o' \<in> set ops. op_arg o' \<noteq> NilPtr \<Longrightarrow> in_sync h (run_ops h dhs ops)"
proof (induction ops arbitrary: dhs)
  case Nil
  then show ?case by simp
next
  case (Cons o' ops)
  have "in_sync h (apply_op h dhs o')"
    using Cons.prems by (cases o') (simp_all add: apply_op_def in_sync_AddEndpoint in_sync_DelEndpoint)
  with Cons show ?case by simp
qed

subsection \<open>Evaluation of the examples\<close>

lemma scenario_heap_simps:
  "scenario_heap 0 = \<lparr>Methods = Some [''GET''], Paths = Some [''/a''], Handler = 1\<rparr>"
  "scenario_heap (Suc 0) = \<lparr>Methods = None, Paths = None, Handler = 2\<rparr>"
  "scenario_heap 2 = \<lparr>Methods = Some [], Paths = Some [], Handler = 3\<rparr>"
  by (simp_all add: scenario_heap_def)

lemmas table_simps =
  spec_table_def spec_routes_of_def spec_route_def scenario_heap_simps New_def
  createSwappableRouter_def swap_def Lock_def Unlock_def

lemmas run_simps =
  step_def init_def Lock_def Unlock_def createSwappableRouter_def

subsection \<open>The two threads\<close>

lemma run_append:
  "run serve r nr c (xs @ ys) = run serve r nr (run serve r nr c xs) ys"
  by (induction xs arbitrary: c) simp_all

lemma one_table_init: "one_table (router sr) T_new serve r (init sr)"
  by (simp add: one_table_def init_def)

lemma one_table_dispatcher:
  "one_table T_old T_new serve r c \<Longrightarrow>
   one_table T_old T_new serve r (dispatcher_step serve r (d_pc c) c)"
  by (cases "d_pc c")
    (auto simp: one_table_def Lock_def Unlock_def split: option.splits)

lemma swapper_shared:
  "router (shared (swapper_step T_new (s_pc c) c)) = router (shared c) \<or>
   router (shared (swapper_step T_new (s_pc c) c)) = T_new"
  by (cases "s_pc c") (simp_all add: Lock_def Unlock_def)

lemma swapper_keeps_dispatcher:
  "d_pc (swapper_step nr (s_pc c) c) = d_pc c \<and>
   d_sr_router (swapper_step nr (s_pc c) c) = d_sr_router c \<and>
   d_router (swapper_step nr (s_pc c) c) = d_router c \<and>
   d_resp (swapper_step nr (s_pc c) c) = d_resp c"
  by (cases "s_pc c") (simp_all split: option.splits)

lemma one_table_swapper:
  "one_table T_old T_new serve r c \<Longrightarrow>
   one_table T_old T_new serve r (swapper_step T_new (s_pc c) c)"
  using swapper_shared[of T_new c] swapper_keeps_dispatcher[of T_new c]
  by (auto simp: one_table_def cong: option.case_cong)

lemma one_table_step:
  "one_table T_old T_new serve r c \<Longrightarrow> one_table T_old T_new serve r (step serve r T_new c t)"
  by (cases t) (simp_all add: step_def one_table_dispatcher one_table_swapper)

lemma one_table_run:
  "one_table T_old T_new serve r c \<Longrightarrow> one_table T_old T_new serve r (run serve r T_new c sched)"
  by (induction sched arbitrary: c) (simp_all add: one_table_step)

lemma before_first_step:
  "Dispatcher \<notin> set pre \<Longrightarrow>
   d_pc (run serve r nr c pre) = d_pc c \<and>
   d_sr_router (run serve r nr c pre) = d_sr_router c \<and>
   d_router (run serve r nr c pre) = d_router c \<and>
   d_resp (run serve r nr c pre) = d_resp c"
proof (induction pre arbitrary: c)
  case Nil
  show ?case by simp
next
  case (Cons t pre)
  then have t: "t = Swapper" and rest: "Dispatcher \<notin> set pre"
    by (cases t; simp)+
  show ?case
    using Cons.IH[OF rest, of "step serve r nr c t"] swapper_keeps_dispatcher[of nr c]
    by (simp add: t step_def)
qed

lemma copied_dispatcher:
  "copied T serve r c \<Longrightarrow> copied T serve r (dispatcher_step serve r (d_pc c) c)"
  by (cases "d_pc c") (auto simp: copied_def split: option.splits)

lemma copied_swapper:
  "copied T serve r c \<Longrightarrow> copied T serve r (swapper_step nr (s_pc c) c)"
  using swapper_keeps_dispatcher[of nr c] by (simp add: copied_def)

lemma copied_run:
  "copied T serve r c \<Longrightarrow> copied T serve r (run serve r nr c sched)"
proof (induction sched arbitrary: c)
  case Nil
  then show ?case by simp
next
  case (Cons t sched)
  have "copied T serve r (step serve r nr c t)"
    using Cons.prems by (cases t) (simp_all add: step_def copied_dispatcher copied_swapper)
  then show ?case by (simp add: Cons.IH)
qed

lemma first_step_copies:
  assumes "d_pc c = D_copy" "d_router c = None" "d_resp c = None"
  shows "copied (router (shared c)) serve r (step serve r nr c Dispatcher)"
  using assms by (simp add: step_def copied_def)

subsection \<open>The two files\<close>

lemma find_pos_exp_eq: "find_pos_exp xs i e = find_pos xs i e"
  by (induction xs arbitrary: i) simp_all

lemma paths_loop_exp_eq: "paths_loop_exp e r ps = paths_loop e r ps"
  by (induction ps arbitrary: r) simp_all

lemma endpoints_loop_exp_eq: "endpoints_loop_exp h r es = endpoints_loop h r es"
proof (induction es arbitrary: r)
  case Nil
  show ?case by simp
next
  case (Cons p es)
  show ?case by (cases p) (simp_all add: Cons.IH paths_loop_exp_eq Let_def cong: option.case_cong)
qed

lemma Swap_eq: "Swap sr nr = swap sr nr"
  by (simp add: Swap_def swap_def)

lemma ReloadEndpoints_eq: "ReloadEndpoints h dhs = reloadEndpoints h dhs"
  by (simp add: ReloadEndpoints_def reloadEndpoints_def endpoints_loop_exp_eq Swap_eq
      cong: option.case_cong)

section \<open>The claims\<close>

text \<open>
  Claim C1. A dispatch that runs concurrently with a \<^verbatim>\<open>swap(T_new)\<close> replacing
  \<open>T_old\<close> is served by one table, \<open>T_old\<close> or \<open>T_new\<close>: under every schedule of the
  two threads, a response the dispatcher produces is the response of the one table its
  local variable \<^verbatim>\<open>router\<close> holds, and that table is the old one or the new one.
  Reading and writing the pointer are single steps of the model, so no step sees a part
  of a pointer. The witness runs three schedules: the dispatcher copies its receiver
  before the swap and answers from the old table, also when it takes the mutex only after
  the swap has finished; it copies after the store and answers from the new table.
\<close>
theorem dispatch_served_by_one_table:
  "d_resp (run serve r T_new (init sr) sched) = Some resp \<Longrightarrow>
   \<exists>T. (T = router sr \<or> T = T_new) \<and>
       d_router (run serve r T_new (init sr) sched) = Some T \<and> resp = serve T r"
proof -
  assume a: "d_resp (run serve r T_new (init sr) sched) = Some resp"
  have "one_table (router sr) T_new serve r (run serve r T_new (init sr) sched)"
    by (rule one_table_run[OF one_table_init])
  with a show ?thesis
    by (auto simp: one_table_def split: option.splits)
qed

theorem dispatch_served_by_one_table_witness:
  "d_resp (run (\<lambda>rt q. length (routes rt)) () (HandleFunc ''/a'' 1 NewRouter)
       (init (createSwappableRouter NewRouter))
       [Dispatcher, Swapper, Swapper, Swapper, Dispatcher, Dispatcher, Dispatcher, Dispatcher])
     = Some 0 \<and>
   d_resp (run (\<lambda>rt q. length (routes rt)) () (HandleFunc ''/a'' 1 NewRouter)
       (init (createSwappableRouter NewRouter))
       [Swapper, Dispatcher, Swapper, Dispatcher, Swapper, Dispatcher, Dispatcher, Dispatcher, Dispatcher])
     = Some 0 \<and>
   d_resp (run (\<lambda>rt q. length (routes rt)) () (HandleFunc ''/a'' 1 NewRouter)
       (init (createSwappableRouter NewRouter))
       [Swapper, Swapper, Dispatcher, Swapper, Dispatcher, Dispatcher, Dispatcher, Dispatcher])
     = Some 1 \<and>
   (\<exists>T. (T = NewRouter \<or> T = HandleFunc ''/a'' 1 NewRouter) \<and>
        d_router (run (\<lambda>rt q. length (routes rt)) () (HandleFunc ''/a'' 1 NewRouter)
          (init (createSwappableRouter NewRouter))
          [Swapper, Swapper, Dispatcher, Swapper, Dispatcher, Dispatcher, Dispatcher, Dispatcher])
          = Some T \<and>
        (1::nat) = length (routes T))"
proof -
  have a: "d_resp (run (\<lambda>rt q. length (routes rt)) () (HandleFunc ''/a'' 1 NewRouter)
       (init (createSwappableRouter NewRouter))
       [Dispatcher, Swapper, Swapper, Swapper, Dispatcher, Dispatcher, Dispatcher, Dispatcher])
     = Some 0"
    by (simp add: run_simps HandleFunc_def NewRouter_def)
  have b: "d_resp (run (\<lambda>rt q. length (routes rt)) () (HandleFunc ''/a'' 1 NewRouter)
       (init (createSwappableRouter NewRouter))
       [Swapper, Dispatcher, Swapper, Dispatcher, Swapper, Dispatcher, Dispatcher, Dispatcher, Dispatcher])
     = Some 0"
    by (simp add: run_simps HandleFunc_def NewRouter_def)
  have c: "d_resp (run (\<lambda>rt q. length (routes rt)) () (HandleFunc ''/a'' 1 NewRouter)
       (init (createSwappableRouter NewRouter))
       [Swapper, Swapper, Dispatcher, Swapper, Dispatcher, Dispatcher, Dispatcher, Dispatcher])
     = Some 1"
    by (simp add: run_simps HandleFunc_def NewRouter_def)
  from dispatch_served_by_one_table [OF c] a b c show ?thesis
    by (simp add: createSwappableRouter_def)
qed



text \<open>
  Claim C3. \<^verbatim>\<open>AddEndpoint\<close> on a pointer that is already in the list returns the
  error "endpoint already added" and leaves the registry, its list and its table, as it
  was: no rebuild.
\<close>
theorem AddEndpoint_duplicate:
  "endpoint \<in> set (Endpoints dhs) \<Longrightarrow>
   AddEndpoint h dhs endpoint = (Return (Some (ErrorString ''endpoint already added'')), dhs)"
  by (simp add: AddEndpoint_def find_pos_present)

theorem AddEndpoint_duplicate_witness:
  "AddEndpoint scenario_heap (New\<lparr>Endpoints := [Ptr 0, Ptr 1]\<rparr>) (Ptr 1) =
     (Return (Some (ErrorString ''endpoint already added'')), New\<lparr>Endpoints := [Ptr 0, Ptr 1]\<rparr>)"
  using AddEndpoint_duplicate [of "Ptr 1" "New\<lparr>Endpoints := [Ptr 0, Ptr 1]\<rparr>" scenario_heap]
  by simp

text \<open>
  Claim C4. \<^verbatim>\<open>DelEndpoint\<close> on a pointer that is not in the list returns the error
  "endpoint not found" and leaves the registry as it was. On a pointer that is in the
  list it removes the first occurrence and runs \<^verbatim>\<open>reloadEndpoints\<close> on the list that
  remains; when that list holds no \<^verbatim>\<open>nil\<close> and the mutex is free, the call returns
  without error and the table is the one built from the list that remains.
\<close>
theorem DelEndpoint_cases:
  "(endpoint \<notin> set (Endpoints dhs) \<longrightarrow>
      DelEndpoint h dhs endpoint = (Return (Some (ErrorString ''endpoint not found'')), dhs)) \<and>
   (endpoint \<in> set (Endpoints dhs) \<longrightarrow>
      Endpoints (snd (DelEndpoint h dhs endpoint)) = remove1 endpoint (Endpoints dhs) \<and>
      DelEndpoint h dhs endpoint =
        (case reloadEndpoints h (dhs\<lparr>Endpoints := remove1 endpoint (Endpoints dhs)\<rparr>) of
           (Return u, dhs') \<Rightarrow> (Return None, dhs')
         | (Panic, dhs') \<Rightarrow> (Panic, dhs')
         | (Block, dhs') \<Rightarrow> (Block, dhs'))) \<and>
   (endpoint \<in> set (Endpoints dhs) \<longrightarrow> NilPtr \<notin> set (Endpoints dhs) \<longrightarrow> \<not> mu (Router dhs) \<longrightarrow>
      DelEndpoint h dhs endpoint =
        (Return None,
         \<lparr>Router =
            \<lparr>mu = False, router = spec_table (pointees h (remove1 endpoint (Endpoints dhs)))\<rparr>,
          Endpoints = remove1 endpoint (Endpoints dhs)\<rparr>))"
proof (intro conjI impI)
  assume "endpoint \<notin> set (Endpoints dhs)"
  then show "DelEndpoint h dhs endpoint = (Return (Some (ErrorString ''endpoint not found'')), dhs)"
    by (rule DelEndpoint_absent)
next
  show "Endpoints (snd (DelEndpoint h dhs endpoint)) = remove1 endpoint (Endpoints dhs)"
    by (rule DelEndpoint_Endpoints)
next
  assume "endpoint \<in> set (Endpoints dhs)"
  then show "DelEndpoint h dhs endpoint =
        (case reloadEndpoints h (dhs\<lparr>Endpoints := remove1 endpoint (Endpoints dhs)\<rparr>) of
           (Return u, dhs') \<Rightarrow> (Return None, dhs')
         | (Panic, dhs') \<Rightarrow> (Panic, dhs')
         | (Block, dhs') \<Rightarrow> (Block, dhs'))"
    by (simp add: DelEndpoint_def find_pos_present find_pos_remove1_0)
next
  assume "endpoint \<in> set (Endpoints dhs)" "NilPtr \<notin> set (Endpoints dhs)" "\<not> mu (Router dhs)"
  then show "DelEndpoint h dhs endpoint =
        (Return None,
         \<lparr>Router =
            \<lparr>mu = False, router = spec_table (pointees h (remove1 endpoint (Endpoints dhs)))\<rparr>,
          Endpoints = remove1 endpoint (Endpoints dhs)\<rparr>)"
    by (rule DelEndpoint_present)
qed

theorem DelEndpoint_cases_witness:
  "DelEndpoint scenario_heap (New\<lparr>Endpoints := [Ptr 1]\<rparr>) (Ptr 0) =
     (Return (Some (ErrorString ''endpoint not found'')), New\<lparr>Endpoints := [Ptr 1]\<rparr>) \<and>
   DelEndpoint scenario_heap (New\<lparr>Endpoints := [Ptr 0, Ptr 1]\<rparr>) (Ptr 0) =
     (Return None,
      \<lparr>Router =
         \<lparr>mu = False,
          router =
            \<lparr>routes = [\<lparr>handler = Some 2, matchers = [PathPrefixM ''/'']\<rparr>], strictSlash = True\<rparr>\<rparr>,
       Endpoints = [Ptr 1]\<rparr>)"
proof
  have "Ptr 0 \<notin> set (Endpoints (New\<lparr>Endpoints := [Ptr 1]\<rparr>))" by simp
  with DelEndpoint_cases [of "Ptr 0" "New\<lparr>Endpoints := [Ptr 1]\<rparr>" scenario_heap]
  show "DelEndpoint scenario_heap (New\<lparr>Endpoints := [Ptr 1]\<rparr>) (Ptr 0) =
     (Return (Some (ErrorString ''endpoint not found'')), New\<lparr>Endpoints := [Ptr 1]\<rparr>)"
    by blast
next
  let ?d = "New\<lparr>Endpoints := [Ptr 0, Ptr 1]\<rparr>"
  have "Ptr 0 \<in> set (Endpoints ?d)" "NilPtr \<notin> set (Endpoints ?d)" "\<not> mu (Router ?d)"
    by (simp_all add: New_def createSwappableRouter_def)
  with DelEndpoint_cases [of "Ptr 0" ?d scenario_heap]
  have "DelEndpoint scenario_heap ?d (Ptr 0) =
        (Return None,
         \<lparr>Router =
            \<lparr>mu = False,
             router = spec_table (pointees scenario_heap (remove1 (Ptr 0) (Endpoints ?d)))\<rparr>,
          Endpoints = remove1 (Ptr 0) (Endpoints ?d)\<rparr>)"
    by blast
  then show "DelEndpoint scenario_heap ?d (Ptr 0) =
     (Return None,
      \<lparr>Router =
         \<lparr>mu = False,
          router =
            \<lparr>routes = [\<lparr>handler = Some 2, matchers = [PathPrefixM ''/'']\<rparr>], strictSlash = True\<rparr>\<rparr>,
       Endpoints = [Ptr 1]\<rparr>)"
    by (simp add: table_simps)
qed



text \<open>
  Claim C6. \<^verbatim>\<open>AddEndpoint\<close> of an endpoint that is not in the list, followed by
  \<^verbatim>\<open>DelEndpoint\<close> of the same endpoint, gives back the list as it was. In a
  registry whose table is in step with its list both calls return without error and the
  whole registry is as before, so a request is served as before the two calls.
\<close>
theorem add_then_del_restores:
  "endpoint \<notin> set (Endpoints dhs) \<Longrightarrow>
   Endpoints (snd (DelEndpoint h (snd (AddEndpoint h dhs endpoint)) endpoint)) = Endpoints dhs \<and>
   (in_sync h dhs \<longrightarrow> endpoint \<noteq> NilPtr \<longrightarrow>
      fst (AddEndpoint h dhs endpoint) = Return None \<and>
      DelEndpoint h (snd (AddEndpoint h dhs endpoint)) endpoint = (Return None, dhs) \<and>
      ServeHTTP serve (Router (snd (DelEndpoint h (snd (AddEndpoint h dhs endpoint)) endpoint))) r =
        ServeHTTP serve (Router dhs) r)"
proof (intro conjI impI)
  assume fresh: "endpoint \<notin> set (Endpoints dhs)"
  then show "Endpoints (snd (DelEndpoint h (snd (AddEndpoint h dhs endpoint)) endpoint)) = Endpoints dhs"
    by (simp add: DelEndpoint_Endpoints AddEndpoint_Endpoints remove1_append)
  assume sync: "in_sync h dhs" and nn: "endpoint \<noteq> NilPtr"
  have nil: "NilPtr \<notin> set (Endpoints dhs)" and free: "\<not> mu (Router dhs)"
    using sync in_sync_no_nil by (auto simp: in_sync_def)
  note add = AddEndpoint_fresh[OF fresh nil nn free, of h]
  show "fst (AddEndpoint h dhs endpoint) = Return None" by (simp add: add)
  have del: "DelEndpoint h (snd (AddEndpoint h dhs endpoint)) endpoint =
      (Return None,
       \<lparr>Router = \<lparr>mu = False, router = spec_table (pointees h (Endpoints dhs))\<rparr>,
        Endpoints = Endpoints dhs\<rparr>)"
    using fresh nil nn
    by (subst DelEndpoint_present) (simp_all add: add remove1_append)
  show "DelEndpoint h (snd (AddEndpoint h dhs endpoint)) endpoint = (Return None, dhs)"
    using in_sync_table[OF sync] by (simp add: del)
  then show "ServeHTTP serve (Router (snd (DelEndpoint h (snd (AddEndpoint h dhs endpoint)) endpoint))) r =
        ServeHTTP serve (Router dhs) r"
    by simp
qed

theorem add_then_del_restores_witness:
  "in_sync scenario_heap (run_ops scenario_heap New [Add (Ptr 0)]) \<and>
   Endpoints (snd (AddEndpoint scenario_heap (run_ops scenario_heap New [Add (Ptr 0)]) (Ptr 1))) =
     [Ptr 0, Ptr 1] \<and>
   DelEndpoint scenario_heap
     (snd (AddEndpoint scenario_heap (run_ops scenario_heap New [Add (Ptr 0)]) (Ptr 1))) (Ptr 1) =
     (Return None, run_ops scenario_heap New [Add (Ptr 0)])"
proof -
  let ?d = "run_ops scenario_heap New [Add (Ptr 0)]"
  have s: "in_sync scenario_heap ?d"
    by (rule in_sync_run_ops[OF in_sync_New]) simp
  have e: "Endpoints ?d = [Ptr 0]"
    by (simp add: apply_op_def AddEndpoint_Endpoints New_def)
  have f: "Ptr 1 \<notin> set (Endpoints ?d)"
    unfolding e by simp
  have a: "Endpoints (snd (AddEndpoint scenario_heap ?d (Ptr 1))) = [Ptr 0, Ptr 1]"
    unfolding AddEndpoint_Endpoints e by simp
  have "DelEndpoint scenario_heap (snd (AddEndpoint scenario_heap ?d (Ptr 1))) (Ptr 1) =
     (Return None, ?d)"
    using add_then_del_restores
      [OF f, where h = scenario_heap and serve = "\<lambda>rt q. length (routes rt)" and r = "()",
        THEN conjunct2]
      s
    by simp
  with s a show ?thesis by blast
qed

text \<open>
  Claim C7. After every sequence of \<^verbatim>\<open>AddEndpoint\<close> and \<^verbatim>\<open>DelEndpoint\<close> calls
  on the registry of \<^verbatim>\<open>New\<close>, no pointer is in the list twice; each of the two calls
  keeps a list that has no duplicates free of duplicates.
\<close>
theorem no_duplicate_invariant:
  "distinct (Endpoints (run_ops h New ops)) \<and>
   (distinct (Endpoints dhs) \<longrightarrow>
      distinct (Endpoints (snd (AddEndpoint h dhs endpoint))) \<and>
      distinct (Endpoints (snd (DelEndpoint h dhs endpoint))))"
proof (intro conjI impI)
  have "distinct (Endpoints New)" by (simp add: New_def)
  then show "distinct (Endpoints (run_ops h New ops))" by (rule run_ops_distinct)
next
  assume "distinct (Endpoints dhs)"
  then show "distinct (Endpoints (snd (AddEndpoint h dhs endpoint)))"
    using apply_op_distinct[of dhs h "Add endpoint"] by (simp add: apply_op_def)
next
  assume "distinct (Endpoints dhs)"
  then show "distinct (Endpoints (snd (DelEndpoint h dhs endpoint)))"
    using apply_op_distinct[of dhs h "Del endpoint"] by (simp add: apply_op_def)
qed

theorem no_duplicate_invariant_witness:
  "Endpoints (run_ops scenario_heap New [Add (Ptr 0), Add (Ptr 1), Add (Ptr 0), Del (Ptr 2), Del (Ptr 0), Add (Ptr 0)])
     = [Ptr 1, Ptr 0] \<and>
   distinct (Endpoints (run_ops scenario_heap New
     [Add (Ptr 0), Add (Ptr 1), Add (Ptr 0), Del (Ptr 2), Del (Ptr 0), Add (Ptr 0)]))"
proof
  show "Endpoints (run_ops scenario_heap New [Add (Ptr 0), Add (Ptr 1), Add (Ptr 0), Del (Ptr 2), Del (Ptr 0), Add (Ptr 0)])
     = [Ptr 1, Ptr 0]"
    by (simp add: apply_op_def AddEndpoint_Endpoints DelEndpoint_Endpoints New_def)
next
  from no_duplicate_invariant
    [of scenario_heap "[Add (Ptr 0), Add (Ptr 1), Add (Ptr 0), Del (Ptr 2), Del (Ptr 0), Add (Ptr 0)]",
      THEN conjunct1]
  show "distinct (Endpoints (run_ops scenario_heap New
     [Add (Ptr 0), Add (Ptr 1), Add (Ptr 0), Del (Ptr 2), Del (Ptr 0), Add (Ptr 0)]))" .
qed

text \<open>
  Claim C8. \<^verbatim>\<open>ServeHTTP\<close> of the swappable router hands the request, unchanged, to
  the table in place and returns that table's response, leaving the swappable router as
  it was (with the mutex held by nobody who releases it, the call blocks). It reads the
  shared reference once: whatever the other thread does afterwards, the response is that
  of the table that was in place when the dispatcher took its first step.
\<close>
theorem dispatch_reads_table_once:
  "(\<not> mu sr \<longrightarrow> ServeHTTP serve sr r = (Return (serve (router sr) r), sr)) \<and>
   (mu sr \<longrightarrow> ServeHTTP serve sr r = (Block, sr)) \<and>
   (Dispatcher \<notin> set pre \<longrightarrow>
    d_resp (run serve r newRouter (init sr0) (pre @ Dispatcher # post)) = Some resp \<longrightarrow>
    resp = serve (router (shared (run serve r newRouter (init sr0) pre))) r)"
proof (intro conjI impI)
  assume "\<not> mu sr"
  then show "ServeHTTP serve sr r = (Return (serve (router sr) r), sr)"
    by (simp add: ServeHTTP_def Lock_def Unlock_def)
next
  assume "mu sr"
  then show "ServeHTTP serve sr r = (Block, sr)"
    by (simp add: ServeHTTP_def Lock_def)
next
  assume pre: "Dispatcher \<notin> set pre"
    and resp: "d_resp (run serve r newRouter (init sr0) (pre @ Dispatcher # post)) = Some resp"
  let ?c = "run serve r newRouter (init sr0) pre"
  from before_first_step[OF pre, of serve r newRouter "init sr0"]
  have "d_pc ?c = D_copy" "d_router ?c = None" "d_resp ?c = None"
    by (simp_all add: init_def)
  then have "copied (router (shared ?c)) serve r (step serve r newRouter ?c Dispatcher)"
    by (rule first_step_copies)
  then have "copied (router (shared ?c)) serve r
      (run serve r newRouter (step serve r newRouter ?c Dispatcher) post)"
    by (rule copied_run)
  then have "copied (router (shared ?c)) serve r
      (run serve r newRouter (init sr0) (pre @ Dispatcher # post))"
    by (simp add: run_append)
  with resp show "resp = serve (router (shared ?c)) r"
    by (simp add: copied_def)
qed

theorem dispatch_reads_table_once_witness:
  "ServeHTTP (\<lambda>rt q. (length (routes rt), q)) (createSwappableRouter NewRouter) ''GET /a'' =
     (Return (0, ''GET /a''), createSwappableRouter NewRouter) \<and>
   d_resp (run (\<lambda>rt q. (length (routes rt), q)) ''GET /a'' (HandleFunc ''/a'' 1 NewRouter)
       (init (createSwappableRouter NewRouter))
       ([Swapper, Swapper] @ Dispatcher # [Swapper, Dispatcher, Dispatcher, Dispatcher, Dispatcher]))
     = Some (1, ''GET /a'') \<and>
   router (shared (run (\<lambda>rt q. (length (routes rt), q)) ''GET /a'' (HandleFunc ''/a'' 1 NewRouter)
       (init (createSwappableRouter NewRouter)) [Swapper, Swapper])) = HandleFunc ''/a'' 1 NewRouter"
proof -
  let ?serve = "\<lambda>rt (q::string). (length (routes rt), q)"
  note t = dispatch_reads_table_once
    [where serve = ?serve and r = "''GET /a''" and sr = "createSwappableRouter NewRouter"
       and newRouter = "HandleFunc ''/a'' 1 NewRouter" and ?sr0.0 = "createSwappableRouter NewRouter"
       and pre = "[Swapper, Swapper]"
       and post = "[Swapper, Dispatcher, Dispatcher, Dispatcher, Dispatcher]"
       and resp = "(1, ''GET /a'')"]
  have free: "\<not> mu (createSwappableRouter NewRouter)" by (simp add: createSwappableRouter_def)
  have a: "ServeHTTP ?serve (createSwappableRouter NewRouter) ''GET /a'' =
      (Return (?serve (router (createSwappableRouter NewRouter)) ''GET /a''), createSwappableRouter NewRouter)"
    using t[THEN conjunct1] free by blast
  have b: "d_resp (run ?serve ''GET /a'' (HandleFunc ''/a'' 1 NewRouter)
       (init (createSwappableRouter NewRouter))
       ([Swapper, Swapper] @ Dispatcher # [Swapper, Dispatcher, Dispatcher, Dispatcher, Dispatcher]))
     = Some (1, ''GET /a'')"
    by (simp add: run_simps HandleFunc_def NewRouter_def)
  have c: "router (shared (run ?serve ''GET /a'' (HandleFunc ''/a'' 1 NewRouter)
       (init (createSwappableRouter NewRouter)) [Swapper, Swapper])) = HandleFunc ''/a'' 1 NewRouter"
    by (simp add: run_simps)
  from a b c show ?thesis
    by (simp add: createSwappableRouter_def NewRouter_def)
qed

text \<open>
  Claim C9. The functions of the second file (\<^verbatim>\<open>CreateSwappableRouter\<close>,
  \<^verbatim>\<open>Swap\<close>, \<^verbatim>\<open>ServeHTTP\<close>, \<^verbatim>\<open>New\<close>, \<^verbatim>\<open>AddEndpoint\<close>,
  \<^verbatim>\<open>DelEndpoint\<close>, \<^verbatim>\<open>ReloadEndpoints\<close>) return the same results and the same
  states as their counterparts of the first file, on every input.
\<close>
theorem exported_variant_equivalent:
  "CreateSwappableRouter r0 = createSwappableRouter r0 \<and>
   Swap sr newRouter = swap sr newRouter \<and>
   ServeHTTP_exp serve sr r = ServeHTTP serve sr r \<and>
   New_exp = New \<and>
   AddEndpoint_exp h dhs endpoint = AddEndpoint h dhs endpoint \<and>
   DelEndpoint_exp h dhs endpoint = DelEndpoint h dhs endpoint \<and>
   ReloadEndpoints h dhs = reloadEndpoints h dhs"
  by (simp add: CreateSwappableRouter_def createSwappableRouter_def Swap_eq
      ServeHTTP_exp_def ServeHTTP_def New_exp_def New_def
      AddEndpoint_exp_def AddEndpoint_def DelEndpoint_exp_def DelEndpoint_def
      find_pos_exp_eq ReloadEndpoints_eq)

theorem exported_variant_equivalent_witness:
  "AddEndpoint_exp scenario_heap (New\<lparr>Endpoints := [Ptr 0]\<rparr>) (Ptr 1) =
     (Return None,
      \<lparr>Router =
         \<lparr>mu = False,
          router =
            \<lparr>routes =
               [\<lparr>handler = Some 1, matchers = [PathM ''/a'', MethodsM [''GET'']]\<rparr>,
                \<lparr>handler = Some 2, matchers = [PathPrefixM ''/'']\<rparr>],
             strictSlash = True\<rparr>\<rparr>,
       Endpoints = [Ptr 0, Ptr 1]\<rparr>) \<and>
   DelEndpoint_exp scenario_heap New_exp (Ptr 0) =
     (Return (Some (ErrorString ''endpoint not found'')), New)"
proof -
  let ?d = "New\<lparr>Endpoints := [Ptr 0]\<rparr>"
  note t = exported_variant_equivalent
    [where h = scenario_heap and serve = "\<lambda>rt q. length (routes rt)" and r = "()"]
  have a: "AddEndpoint_exp scenario_heap ?d (Ptr 1) = AddEndpoint scenario_heap ?d (Ptr 1)"
    using t[where dhs = ?d and endpoint = "Ptr 1"] by simp
  have b: "DelEndpoint_exp scenario_heap New_exp (Ptr 0) = DelEndpoint scenario_heap New (Ptr 0)"
    using t[where dhs = New and endpoint = "Ptr 0"] by simp
  have c: "AddEndpoint scenario_heap ?d (Ptr 1) =
      (Return None,
       \<lparr>Router = \<lparr>mu = False, router = spec_table (pointees scenario_heap (Endpoints ?d @ [Ptr 1]))\<rparr>,
        Endpoints = Endpoints ?d @ [Ptr 1]\<rparr>)"
    by (rule AddEndpoint_fresh) (simp_all add: New_def createSwappableRouter_def)
  have d: "DelEndpoint scenario_heap New (Ptr 0) =
      (Return (Some (ErrorString ''endpoint not found'')), New)"
    by (rule DelEndpoint_absent) (simp add: New_def)
  show ?thesis
    unfolding a b c d by (simp add: table_simps)
qed

text \<open>
  Claim C10. An endpoint whose \<^verbatim>\<open>Paths\<close> is an empty slice that is not \<^verbatim>\<open>nil\<close>
  adds no route: the loop of \<^verbatim>\<open>reloadEndpoints\<close> builds the same table with the
  endpoint in the list as without it, and \<^verbatim>\<open>reloadEndpoints\<close> has the same outcome
  and installs the same table. Only \<^verbatim>\<open>nil\<close> gives the catch-all on the root path;
  every slice that is not \<^verbatim>\<open>nil\<close> gives one route for each of its paths.
\<close>
theorem empty_paths_register_nothing:
  "(Paths (h a) = Some [] \<longrightarrow>
      endpoints_loop h r (xs @ Ptr a # ys) = endpoints_loop h r (xs @ ys) \<and>
      reloadEndpoints h (dhs\<lparr>Endpoints := xs @ Ptr a # ys\<rparr>) =
        (fst (reloadEndpoints h (dhs\<lparr>Endpoints := xs @ ys\<rparr>)),
         snd (reloadEndpoints h (dhs\<lparr>Endpoints := xs @ ys\<rparr>))\<lparr>Endpoints := xs @ Ptr a # ys\<rparr>)) \<and>
   (Paths (h a) = None \<longrightarrow>
      endpoints_loop h r [Ptr a] =
        Some (r\<lparr>routes := routes r @ [spec_route (PathPrefixM ''/'') (h a)]\<rparr>)) \<and>
   (\<forall>ps. Paths (h a) = Some ps \<longrightarrow>
      endpoints_loop h r [Ptr a] =
        Some (r\<lparr>routes := routes r @ map (\<lambda>p. spec_route (PathM p) (h a)) ps\<rparr>))"
proof (intro conjI impI allI)
  assume e: "Paths (h a) = Some []"
  have one: "\<And>r'. endpoints_loop h r' (Ptr a # ys) = endpoints_loop h r' ys"
    by (simp add: e Let_def)
  show l: "endpoints_loop h r (xs @ Ptr a # ys) = endpoints_loop h r (xs @ ys)" for r
    by (simp add: endpoints_loop_append one del: endpoints_loop.simps cong: option.case_cong)
  show "reloadEndpoints h (dhs\<lparr>Endpoints := xs @ Ptr a # ys\<rparr>) =
        (fst (reloadEndpoints h (dhs\<lparr>Endpoints := xs @ ys\<rparr>)),
         snd (reloadEndpoints h (dhs\<lparr>Endpoints := xs @ ys\<rparr>))\<lparr>Endpoints := xs @ Ptr a # ys\<rparr>)"
    by (simp add: reloadEndpoints_def l split: option.splits)
next
  assume "Paths (h a) = None"
  then show "endpoints_loop h r [Ptr a] =
        Some (r\<lparr>routes := routes r @ [spec_route (PathPrefixM ''/'') (h a)]\<rparr>)"
    using endpoints_loop_routes[of "[Ptr a]" h r] by (simp add: spec_routes_of_def)
next
  fix ps
  assume "Paths (h a) = Some ps"
  then show "endpoints_loop h r [Ptr a] =
        Some (r\<lparr>routes := routes r @ map (\<lambda>p. spec_route (PathM p) (h a)) ps\<rparr>)"
    using endpoints_loop_routes[of "[Ptr a]" h r] by (simp add: spec_routes_of_def)
qed

theorem empty_paths_register_nothing_witness:
  "Paths (scenario_heap 2) = Some [] \<and>
   endpoints_loop scenario_heap (StrictSlash True NewRouter) [Ptr 0, Ptr 2, Ptr 1] =
     endpoints_loop scenario_heap (StrictSlash True NewRouter) [Ptr 0, Ptr 1] \<and>
   endpoints_loop scenario_heap (StrictSlash True NewRouter) [Ptr 2] = Some (StrictSlash True NewRouter) \<and>
   endpoints_loop scenario_heap (StrictSlash True NewRouter) [Ptr 1] =
     Some \<lparr>routes = [\<lparr>handler = Some 2, matchers = [PathPrefixM ''/'']\<rparr>], strictSlash = True\<rparr>"
proof -
  have p2: "Paths (scenario_heap 2) = Some []" and p1: "Paths (scenario_heap 1) = None"
    by (simp_all add: scenario_heap_def)
  note t = empty_paths_register_nothing
  have a: "endpoints_loop scenario_heap (StrictSlash True NewRouter) ([Ptr 0] @ Ptr 2 # [Ptr 1]) =
     endpoints_loop scenario_heap (StrictSlash True NewRouter) ([Ptr 0] @ [Ptr 1])"
    using t[of scenario_heap 2 "StrictSlash True NewRouter" "[Ptr 0]" "[Ptr 1]", THEN conjunct1] p2
    by blast
  have b: "endpoints_loop scenario_heap (StrictSlash True NewRouter) [Ptr 2] =
      Some ((StrictSlash True NewRouter)\<lparr>routes := routes (StrictSlash True NewRouter) @ map (\<lambda>p. spec_route (PathM p) (scenario_heap 2)) []\<rparr>)"
    using t[of scenario_heap 2 "StrictSlash True NewRouter", THEN conjunct2, THEN conjunct2] p2
    by blast
  have c: "endpoints_loop scenario_heap (StrictSlash True NewRouter) [Ptr 1] =
      Some ((StrictSlash True NewRouter)\<lparr>routes := routes (StrictSlash True NewRouter) @ [spec_route (PathPrefixM ''/'') (scenario_heap 1)]\<rparr>)"
    using t[of scenario_heap 1 "StrictSlash True NewRouter", THEN conjunct2, THEN conjunct1] p1
    by blast
  from a b c p2 show ?thesis
    by (simp add: StrictSlash_def NewRouter_def spec_route_def scenario_heap_simps)
qed

end
